theory Spec2Isabelle
  imports Main "HOL-Library.Multiset"
begin

section \<open>The repeater control: data model\<close>

text \<open>
  An item of the repeated list (\<^verbatim>\<open>Item\<close> of \<^verbatim>\<open>controls/repeater/types\<close>, with the
  fields the component reads and writes): a numeric \<^verbatim>\<open>id\<close>, a \<^verbatim>\<open>label\<close>, a
  \<^verbatim>\<open>value\<close> (the creation timestamp \<^verbatim>\<open>Date.now()\<close>) and the \<^verbatim>\<open>collapsed\<close> flag.
  An id is an integer held in a JavaScript number, and is modelled by that integer.
  The fields \<^verbatim>\<open>id\<close> and \<^verbatim>\<open>value\<close> are called \<open>item_id\<close> and \<open>item_value\<close> here.
\<close>

record Item =
  item_id :: int
  label :: string
  item_value :: int
  collapsed :: bool

text \<open>
  The part of the control configuration that the repeater reads for removal:
  \<^verbatim>\<open>control?.preventEmpty\<close>. The control object may be absent (\<open>None\<close>), and so may
  its \<^verbatim>\<open>preventEmpty\<close> field.
\<close>

record Control =
  preventEmpty :: "bool option"

text \<open>
  The drag-end event of the drag library: \<^verbatim>\<open>{ active: {id}, over: {id} | null }\<close>.
\<close>

record DragEndEvent =
  active :: int
  over :: "int option"

section \<open>JavaScript arrays\<close>

text \<open>
  \<^verbatim>\<open>Array.prototype.findIndex\<close>: the index of the first element that satisfies the
  predicate, and \<open>-1\<close> when there is none.
\<close>

fun findIndex :: "('a \<Rightarrow> bool) \<Rightarrow> 'a list \<Rightarrow> int" where
  "findIndex P [] = - 1"
| "findIndex P (x # xs) =
     (if P x then 0
      else (let r = findIndex P xs in if r < 0 then - 1 else r + 1))"

text \<open>
  A cell of a JavaScript array holds a value or \<^verbatim>\<open>undefined\<close> (\<open>None\<close>).
  \<^verbatim>\<open>Array.prototype.splice(start, deleteCount, ...items)\<close> first normalises its start
  index: a negative start counts from the end and stops at 0, a start beyond the length
  is the length.
\<close>

definition splice_start :: "nat \<Rightarrow> int \<Rightarrow> nat" where
  "splice_start len s =
     (if s < 0 then nat (max (int len + s) 0) else min (nat s) len)"

text \<open>
  \<^verbatim>\<open>a.splice(s, 1)[0]\<close>: removes one cell at the normalised start when there is one,
  and yields the removed cell, or \<^verbatim>\<open>undefined\<close> when nothing was removed. The second
  component is the array afterwards.
\<close>

definition splice_delete1 :: "'a option list \<Rightarrow> int \<Rightarrow> 'a option \<times> 'a option list" where
  "splice_delete1 a s =
     (let k = splice_start (length a) s
      in (if k < length a then a ! k else None, take k a @ drop (Suc k) a))"

text \<open>\<^verbatim>\<open>a.splice(s, 0, c)\<close>: inserts the cell \<open>c\<close> at the normalised start.\<close>

definition splice_insert :: "'a option list \<Rightarrow> int \<Rightarrow> 'a option \<Rightarrow> 'a option list" where
  "splice_insert a s c =
     (let k = splice_start (length a) s in take k a @ [c] @ drop k a)"

text \<open>
  \<^verbatim>\<open>arrayMove\<close> is imported from the drag library \<^verbatim>\<open>@dnd-kit/sortable\<close>, whose
  definition is
  \<^verbatim>\<open>
  function arrayMove(array, from, to) {
    const newArray = array.slice();
    newArray.splice(to < 0 ? newArray.length + to : to, 0,
                    newArray.splice(from, 1)[0]);
    return newArray;
  }
  \<close>
  The arguments of the outer \<^verbatim>\<open>splice\<close> are evaluated from left to right: the target
  index is computed with the length before the removal, then the cell is removed, then
  it is inserted.
\<close>

definition arrayMove :: "'a option list \<Rightarrow> int \<Rightarrow> int \<Rightarrow> 'a option list" where
  "arrayMove array from_index to_index =
     (let target = (if to_index < 0 then int (length array) + to_index else to_index);
          (c, newArray) = splice_delete1 array from_index
      in splice_insert newArray target c)"

section \<open>JavaScript numbers\<close>

text \<open>
  A JavaScript number is an IEEE 754 double. Every integer of absolute value up to
  \<open>2 ^ 53\<close> is a double; from there on the doubles are 2 apart up to \<open>2 ^ 54\<close>, then 4
  apart, and so on. \<open>double_spacing a\<close> is the distance between neighbouring doubles at
  the magnitude \<open>a\<close>.
\<close>

fun double_spacing :: "nat \<Rightarrow> nat" where
  "double_spacing a = (if a < 2 ^ 53 then 1 else 2 * double_spacing (a div 2))"

text \<open>
  The double nearest to an integer: the nearest multiple of the spacing, and of two
  equally near ones the one whose significand is even.
\<close>

definition round_double :: "int \<Rightarrow> int" where
  "round_double m =
     (let a = nat \<bar>m\<bar>; u = double_spacing a; q = a div u; r = a mod u;
          n = (if 2 * r < u \<or> (2 * r = u \<and> even q) then q * u else (q + 1) * u)
      in sgn m * int n)"

text \<open>
  \<^verbatim>\<open>a + b\<close> on numbers that hold integers: the exact sum, rounded to the nearest
  double. (The sums taken here, \<^verbatim>\<open>x + 1\<close>, never leave the range of the doubles.)
\<close>

definition js_add :: "int \<Rightarrow> int \<Rightarrow> int" where
  "js_add a b = round_double (a + b)"

text \<open>\<^verbatim>\<open>Number.isSafeInteger\<close>: the integers of absolute value below \<open>2 ^ 53\<close>.\<close>

definition safe_integer :: "int \<Rightarrow> bool" where
  "safe_integer n = (\<bar>n\<bar> < 2 ^ 53)"

section \<open>The repeater's operations\<close>

text \<open>
  Every handler reads the current list \<^verbatim>\<open>attribute\<close> and hands a whole new list to
  \<^verbatim>\<open>setAttributes\<close>. The result of a handler is \<open>Some\<close> of the list it hands over,
  and \<open>None\<close> when it returns without calling \<^verbatim>\<open>setAttributes\<close>.
\<close>

definition handleDragEnd :: "Item list \<Rightarrow> DragEndEvent \<Rightarrow> Item option list option" where
  "handleDragEnd attribute event =
     (case over event of
        None \<Rightarrow> None
      | Some over_id \<Rightarrow>
          if active event = over_id then None
          else
            (let oldIndex = findIndex (\<lambda>item. item_id item = active event) attribute;
                 newIndex = findIndex (\<lambda>item. item_id item = over_id) attribute;
                 newAttributes = arrayMove (map Some attribute) oldIndex newIndex
             in Some newAttributes))"

text \<open>
  Modelled from the spec: \<^verbatim>\<open>getMaxId\<close> is imported from \<^verbatim>\<open>./utils\<close>, which is not
  among the sources. The specification gives it as the maximum of the existing ids,
  with the empty list treated as maximum 0.
\<close>

definition getMaxId :: "Item list \<Rightarrow> int" where
  "getMaxId attribute =
     (case attribute of
        [] \<Rightarrow> 0
      | x # xs \<Rightarrow> fold (\<lambda>item m. max (item_id item) m) xs (item_id x))"

text \<open>
  \<^verbatim>\<open>addItem\<close>; \<open>now\<close> is the value of \<^verbatim>\<open>Date.now()\<close>. The result is the list
  handed to \<^verbatim>\<open>setAttributes\<close> and the value handed to \<^verbatim>\<open>setNewItemAdded\<close>.
\<close>

definition addItem :: "Item list \<Rightarrow> int \<Rightarrow> Item list \<times> bool" where
  "addItem attribute now =
     (let newItem = \<lparr>item_id = js_add (getMaxId attribute) 1, label = ''New Item'',
                      item_value = now, collapsed = True\<rparr>;
          newAttributes = attribute @ [newItem]
      in (newAttributes, True))"

definition isDisabledRemove :: "Control option \<Rightarrow> Item list \<Rightarrow> bool" where
  "isDisabledRemove control attribute =
     ((case control of
         None \<Rightarrow> True
       | Some c \<Rightarrow> (case preventEmpty c of None \<Rightarrow> True | Some b \<Rightarrow> b))
      \<and> length attribute = 1)"

definition removeItem :: "Control option \<Rightarrow> Item list \<Rightarrow> int \<Rightarrow> Item list option" where
  "removeItem control attribute i =
     (if isDisabledRemove control attribute then None
      else Some (filter (\<lambda>item. item_id item \<noteq> i) attribute))"

definition duplicateItem :: "Item list \<Rightarrow> int \<Rightarrow> Item list option" where
  "duplicateItem attribute i =
     (case find (\<lambda>item. item_id item = i) attribute of
        None \<Rightarrow> None
      | Some itemToDuplicate \<Rightarrow>
          (let newItem = itemToDuplicate\<lparr>item_id := js_add (getMaxId attribute) 1\<rparr>;
               newAttributes = attribute @ [newItem]
           in Some newAttributes))"

definition toggleCollapse :: "Item list \<Rightarrow> int \<Rightarrow> Item list" where
  "toggleCollapse attribute i =
     map (\<lambda>item. if item_id item = i then item\<lparr>collapsed := \<not> collapsed item\<rparr> else item)
       attribute"

section \<open>The colour picker's popover\<close>

text \<open>
  The popover's \<^verbatim>\<open>onChange\<close> receives values of any type; what matters to it is
  whether a value is \<^verbatim>\<open>null\<close> or \<^verbatim>\<open>undefined\<close>. Colours are strings.
\<close>

datatype jsvalue = Undefined | Null | Str string

text \<open>
  The colours of one element, by colour key, and the object stored under the attribute
  key: the colours of every element, by element name.
\<close>

type_synonym colors = "string \<rightharpoonup> jsvalue"

type_synonym elements = "string \<rightharpoonup> colors"

text \<open>
  \<^verbatim>\<open>{ ...obj }\<close>: the spread of an object copies its properties, and the spread of
  \<^verbatim>\<open>undefined\<close> (\<open>None\<close>) copies nothing.
\<close>

definition spread :: "('k \<rightharpoonup> 'v) option \<Rightarrow> ('k \<rightharpoonup> 'v)" where
  "spread obj = (case obj of None \<Rightarrow> Map.empty | Some m \<Rightarrow> m)"

text \<open>The operator \<^verbatim>\<open>v ?? d\<close>.\<close>

definition nullish :: "jsvalue \<Rightarrow> jsvalue \<Rightarrow> jsvalue" where
  "nullish v d = (if v = Null \<or> v = Undefined then d else v)"

text \<open>
  \<^verbatim>\<open>onChange(colorKey, value)\<close> of the popover, with the properties it closes over:
  \<^verbatim>\<open>attrKey\<close>, \<^verbatim>\<open>element.name\<close>, \<^verbatim>\<open>attributes\<close> and \<^verbatim>\<open>elementColors\<close>. The result
  is the object handed to \<^verbatim>\<open>setAttributes\<close>.
\<close>

definition onChange ::
  "string \<Rightarrow> string \<Rightarrow> (string \<rightharpoonup> elements) \<Rightarrow> colors option \<Rightarrow> string \<Rightarrow> jsvalue
     \<Rightarrow> (string \<rightharpoonup> elements)" where
  "onChange attrKey element_name attributes elementColors colorKey value =
     [attrKey \<mapsto>
        (spread (attributes attrKey))
          (element_name \<mapsto> (spread elementColors)(colorKey \<mapsto> nullish value (Str '''')))]"

section \<open>Positions in a list\<close>

text \<open>
  Two notions used to state what a reorder does: the list without the element at
  position \<open>i\<close>, and the list in which the element at position \<open>i\<close> has been taken out
  and put back at position \<open>j\<close>.
\<close>

definition drop_nth :: "'a list \<Rightarrow> nat \<Rightarrow> 'a list" where
  "drop_nth xs i = take i xs @ drop (Suc i) xs"

definition move_nth :: "'a list \<Rightarrow> nat \<Rightarrow> nat \<Rightarrow> 'a list" where
  "move_nth xs i j = take j (drop_nth xs i) @ [xs ! i] @ drop j (drop_nth xs i)"

text \<open>Sample items for the concrete instances below.\<close>

abbreviation sample :: "int \<Rightarrow> bool \<Rightarrow> Item" where
  "sample i c \<equiv> \<lparr>item_id = i, label = ''Item'', item_value = 0, collapsed = c\<rparr>"

section \<open>Facts about \<open>findIndex\<close>\<close>

lemma findIndex_ge: "- 1 \<le> findIndex P xs"
  by (induction xs) (auto simp: Let_def)

lemma findIndex_lt: "findIndex P xs < int (length xs)"
  by (induction xs) (auto simp: Let_def)

lemma findIndex_neg: "(findIndex P xs < 0) = (\<forall>x \<in> set xs. \<not> P x)"
  by (induction xs) (auto simp: Let_def)

lemma findIndex_absent: "(findIndex P xs = - 1) = (\<forall>x \<in> set xs. \<not> P x)"
  using findIndex_ge [of P xs] findIndex_neg [of P xs] by auto

lemma findIndex_nth: "0 \<le> findIndex P xs \<Longrightarrow> P (xs ! nat (findIndex P xs))"
proof (induction xs)
  case Nil
  then show ?case by simp
next
  case (Cons a xs)
  show ?case
  proof (cases "P a")
    case True
    then show ?thesis by simp
  next
    case False
    with Cons.prems have nn: "0 \<le> findIndex P xs"
      by (auto simp: Let_def split: if_splits)
    then have "nat (findIndex P xs + 1) = Suc (nat (findIndex P xs))" by simp
    with False nn Cons.IH show ?thesis by (simp add: Let_def)
  qed
qed

lemma findIndex_first: "k < nat (findIndex P xs) \<Longrightarrow> \<not> P (xs ! k)"
proof (induction xs arbitrary: k)
  case Nil
  then show ?case by simp
next
  case (Cons a xs)
  show ?case
  proof (cases "P a")
    case True
    with Cons.prems show ?thesis by simp
  next
    case False
    show ?thesis
    proof (cases k)
      case 0
      with False show ?thesis by simp
    next
      case (Suc m)
      with Cons.prems False have "m < nat (findIndex P xs)"
        by (auto simp: Let_def split: if_splits)
      with Cons.IH Suc show ?thesis by simp
    qed
  qed
qed


section \<open>Facts about moving an element\<close>

lemma length_drop_nth: "i < length xs \<Longrightarrow> length (drop_nth xs i) = length xs - 1"
  by (auto simp: drop_nth_def)

lemma mset_drop_nth: "i < length xs \<Longrightarrow> mset (drop_nth xs i) + {#xs ! i#} = mset xs"
proof -
  assume "i < length xs"
  then have "xs = take i xs @ xs ! i # drop (Suc i) xs" by (rule id_take_nth_drop)
  then have "mset xs = mset (take i xs @ xs ! i # drop (Suc i) xs)" by simp
  then show ?thesis by (simp add: drop_nth_def)
qed

lemma mset_move_nth: "i < length xs \<Longrightarrow> mset (move_nth xs i j) = mset xs"
proof -
  assume a: "i < length xs"
  have "mset (take j (drop_nth xs i)) + mset (drop j (drop_nth xs i)) = mset (drop_nth xs i)"
    by (simp only: mset_append [symmetric] append_take_drop_id)
  then have "mset (move_nth xs i j) = mset (drop_nth xs i) + {#xs ! i#}"
    by (simp add: move_nth_def)
  then show ?thesis using mset_drop_nth [OF a] by simp
qed

lemma length_move_nth: "i < length xs \<Longrightarrow> length (move_nth xs i j) = length xs"
  by (auto simp: move_nth_def drop_nth_def)

lemma nth_move_nth: "i < length xs \<Longrightarrow> j < length xs \<Longrightarrow> move_nth xs i j ! j = xs ! i"
  by (simp add: move_nth_def nth_append length_drop_nth)

lemma drop_nth_move_nth:
  "i < length xs \<Longrightarrow> j < length xs \<Longrightarrow> drop_nth (move_nth xs i j) j = drop_nth xs i"
proof -
  assume a: "i < length xs" "j < length xs"
  let ?r = "drop_nth xs i"
  have l: "j \<le> length ?r" using a by (simp add: length_drop_nth)
  have t: "take j (move_nth xs i j) = take j ?r" using l by (simp add: move_nth_def)
  have d: "drop (Suc j) (move_nth xs i j) = drop j ?r" using l by (simp add: move_nth_def)
  show ?thesis unfolding drop_nth_def [of "move_nth xs i j"] t d by simp
qed

lemma splice_start_in: "0 \<le> s \<Longrightarrow> splice_start n s = min (nat s) n"
  by (simp add: splice_start_def)

lemma arrayMove_in_range:
  assumes "i < length xs" and "j < length xs"
  shows "arrayMove (map Some xs) (int i) (int j) = map Some (move_nth xs i j)"
proof -
  have d: "splice_delete1 (map Some xs) (int i) = (Some (xs ! i), map Some (drop_nth xs i))"
    using assms by (simp add: splice_delete1_def splice_start_def drop_nth_def take_map drop_map)
  have l: "j \<le> length (drop_nth xs i)" using assms by (simp add: length_drop_nth)
  have "splice_insert (map Some (drop_nth xs i)) (int j) (Some (xs ! i)) = map Some (move_nth xs i j)"
    using l by (simp add: splice_insert_def splice_start_def move_nth_def take_map drop_map)
  with d show ?thesis by (simp add: arrayMove_def)
qed


section \<open>Drag and drop\<close>

lemma findIndex_id_present:
  assumes "x \<in> item_id ` set attribute"
  shows "0 \<le> findIndex (\<lambda>item. item_id item = x) attribute"
    and "nat (findIndex (\<lambda>item. item_id item = x) attribute) < length attribute"
    and "item_id (attribute ! nat (findIndex (\<lambda>item. item_id item = x) attribute)) = x"
proof -
  let ?f = "findIndex (\<lambda>item. item_id item = x) attribute"
  from assms have "\<not> ?f < 0" unfolding findIndex_neg by auto
  then show nn: "0 \<le> ?f" by simp
  from nn findIndex_lt [of "\<lambda>item. item_id item = x" attribute]
  show "nat ?f < length attribute" by simp
  from nn show "item_id (attribute ! nat ?f) = x" by (rule findIndex_nth)
qed

text \<open>
  C2. A drag-end event whose \<^verbatim>\<open>over\<close> is null, or whose active id equals its over
  id, hands no list over. When the active id \<open>x\<close> and the over id \<open>y\<close> differ and both
  occur in the list, with \<open>i\<close> and \<open>j\<close> the positions of the (first) items carrying
  them, the list handed over is a permutation of the original one, the item that was
  at position \<open>i\<close> now stands at position \<open>j\<close>, and taking that item out of both lists
  leaves the same list: every other item keeps its place relative to the others.
\<close>

theorem handleDragEnd_reorder:
  "handleDragEnd attribute \<lparr>active = x, over = None\<rparr> = None
   \<and> handleDragEnd attribute \<lparr>active = x, over = Some x\<rparr> = None
   \<and> (x \<noteq> y \<and> x \<in> item_id ` set attribute \<and> y \<in> item_id ` set attribute \<longrightarrow>
        (let i = nat (findIndex (\<lambda>item. item_id item = x) attribute);
             j = nat (findIndex (\<lambda>item. item_id item = y) attribute);
             newAttributes = move_nth attribute i j
         in handleDragEnd attribute \<lparr>active = x, over = Some y\<rparr> = Some (map Some newAttributes)
            \<and> i < length attribute \<and> item_id (attribute ! i) = x
            \<and> j < length attribute \<and> item_id (attribute ! j) = y
            \<and> mset newAttributes = mset attribute
            \<and> newAttributes ! j = attribute ! i
            \<and> drop_nth newAttributes j = drop_nth attribute i))"
proof (intro conjI impI)
  show "handleDragEnd attribute \<lparr>active = x, over = None\<rparr> = None"
    by (simp add: handleDragEnd_def)
  show "handleDragEnd attribute \<lparr>active = x, over = Some x\<rparr> = None"
    by (simp add: handleDragEnd_def)
next
  assume a: "x \<noteq> y \<and> x \<in> item_id ` set attribute \<and> y \<in> item_id ` set attribute"
  let ?fi = "findIndex (\<lambda>item. item_id item = x) attribute"
  let ?fj = "findIndex (\<lambda>item. item_id item = y) attribute"
  from a have px: "x \<in> item_id ` set attribute" and py: "y \<in> item_id ` set attribute"
    and ne: "x \<noteq> y" by simp_all
  note ix = findIndex_id_present [OF px]
  note jy = findIndex_id_present [OF py]
  have "arrayMove (map Some attribute) (int (nat ?fi)) (int (nat ?fj))
          = map Some (move_nth attribute (nat ?fi) (nat ?fj))"
    using ix(2) jy(2) by (rule arrayMove_in_range)
  then have am: "arrayMove (map Some attribute) ?fi ?fj
          = map Some (move_nth attribute (nat ?fi) (nat ?fj))"
    using ix(1) jy(1) by simp
  have h: "handleDragEnd attribute \<lparr>active = x, over = Some y\<rparr>
          = Some (map Some (move_nth attribute (nat ?fi) (nat ?fj)))"
    using ne am by (simp add: handleDragEnd_def)
  show "let i = nat ?fi; j = nat ?fj; newAttributes = move_nth attribute i j
         in handleDragEnd attribute \<lparr>active = x, over = Some y\<rparr> = Some (map Some newAttributes)
            \<and> i < length attribute \<and> item_id (attribute ! i) = x
            \<and> j < length attribute \<and> item_id (attribute ! j) = y
            \<and> mset newAttributes = mset attribute
            \<and> newAttributes ! j = attribute ! i
            \<and> drop_nth newAttributes j = drop_nth attribute i"
    unfolding Let_def
    using h ix(2,3) jy(2,3) mset_move_nth [OF ix(2)] nth_move_nth [OF ix(2) jy(2)]
      drop_nth_move_nth [OF ix(2) jy(2)]
    by simp
qed


theorem handleDragEnd_reorder_witness:
  "(1::int) \<noteq> 3
   \<and> 1 \<in> item_id ` set [sample 1 True, sample 2 False, sample 3 True]
   \<and> 3 \<in> item_id ` set [sample 1 True, sample 2 False, sample 3 True]
   \<and> handleDragEnd [sample 1 True, sample 2 False, sample 3 True] \<lparr>active = 1, over = Some 3\<rparr>
       = Some [Some (sample 2 False), Some (sample 3 True), Some (sample 1 True)]"
proof -
  let ?L = "[sample 1 True, sample 2 False, sample 3 True]"
  have p: "(1::int) \<noteq> 3 \<and> 1 \<in> item_id ` set ?L \<and> 3 \<in> item_id ` set ?L" by simp
  have i: "nat (findIndex (\<lambda>item. item_id item = 1) ?L) = 0" by simp
  have j: "nat (findIndex (\<lambda>item. item_id item = 3) ?L) = 2" by simp
  have m: "move_nth ?L 0 2 = [sample 2 False, sample 3 True, sample 1 True]"
    by (simp add: move_nth_def drop_nth_def)
  from handleDragEnd_reorder [of ?L 1 3] p
  have "handleDragEnd ?L \<lparr>active = 1, over = Some 3\<rparr>
          = Some (map Some (move_nth ?L (nat (findIndex (\<lambda>item. item_id item = 1) ?L))
                 (nat (findIndex (\<lambda>item. item_id item = 3) ?L))))"
    unfolding Let_def by blast
  then have "handleDragEnd ?L \<lparr>active = 1, over = Some 3\<rparr>
          = Some (map Some [sample 2 False, sample 3 True, sample 1 True])"
    unfolding i j m .
  with p show ?thesis by simp
qed

lemma arrayMove_absent_from:
  "arrayMove [Some a, Some b, Some c] (- 1) 0 = [Some c, Some a, Some b]"
  by (simp add: arrayMove_def splice_delete1_def splice_insert_def splice_start_def)

lemma arrayMove_absent_to:
  "arrayMove [Some a, Some b, Some c] 0 (- 1) = [Some b, Some c, Some a]"
  by (simp add: arrayMove_def splice_delete1_def splice_insert_def splice_start_def)

text \<open>
  C1. The specification asks that a drag-end event naming an id that no item carries
  leaves the list as it is. The handler passes the \<open>-1\<close> of \<^verbatim>\<open>findIndex\<close> on to
  \<^verbatim>\<open>arrayMove\<close> unchecked, where \<^verbatim>\<open>splice\<close> reads it as the last position: with an
  unknown active id the last item is moved to the position of the over item, and with
  an unknown over id the active item is moved to the end. Nothing is thrown.
\<close>

theorem handleDragEnd_absent_id_moves:
  "handleDragEnd [sample 1 True, sample 2 True, sample 3 True] \<lparr>active = 9, over = Some 1\<rparr>
     = Some [Some (sample 3 True), Some (sample 1 True), Some (sample 2 True)]
   \<and> handleDragEnd [sample 1 True, sample 2 True, sample 3 True] \<lparr>active = 1, over = Some 9\<rparr>
     = Some [Some (sample 2 True), Some (sample 3 True), Some (sample 1 True)]"
  by (simp add: handleDragEnd_def arrayMove_absent_from arrayMove_absent_to)

section \<open>The largest id\<close>

lemma fold_max_id:
  "fold (\<lambda>item m. max (item_id item) m) xs a = Max (insert a (item_id ` set xs))"
proof (induction xs arbitrary: a)
  case Nil
  then show ?case by simp
next
  case (Cons x xs)
  have "Max (insert (max (item_id x) a) (item_id ` set xs))
          = Max (insert a (insert (item_id x) (item_id ` set xs)))"
  proof (cases "set xs = {}")
    case True
    then show ?thesis by (simp add: max.commute)
  next
    case False
    then show ?thesis by (simp add: max.assoc max.commute max.left_commute)
  qed
  with Cons.IH [of "max (item_id x) a"] show ?case by simp
qed

lemma getMaxId_Max:
  "attribute \<noteq> [] \<Longrightarrow> getMaxId attribute = Max (item_id ` set attribute)"
  by (cases attribute) (simp_all add: getMaxId_def fold_max_id)

lemma getMaxId_ge: "item \<in> set attribute \<Longrightarrow> item_id item \<le> getMaxId attribute"
proof -
  assume a: "item \<in> set attribute"
  then have "attribute \<noteq> []" by auto
  then have "getMaxId attribute = Max (item_id ` set attribute)" by (rule getMaxId_Max)
  with a show ?thesis by simp
qed


section \<open>Adding 1 to an id\<close>

declare double_spacing.simps [simp del]

lemma double_spacing_small: "a < 2 ^ 53 \<Longrightarrow> double_spacing a = 1"
  by (subst double_spacing.simps) simp

lemma double_spacing_binade:
  "2 ^ 53 \<le> a \<Longrightarrow> a < 2 ^ 54 \<Longrightarrow> double_spacing a = 2"
proof -
  assume l: "2 ^ 53 \<le> a" and u: "a < 2 ^ 54"
  from l have "double_spacing a = 2 * double_spacing (a div 2)"
    by (subst double_spacing.simps) simp
  moreover from u have "a div 2 < 2 ^ 53" by simp
  then have "double_spacing (a div 2) = 1" by (rule double_spacing_small)
  ultimately show ?thesis by simp
qed

lemma round_double_small: "\<bar>m\<bar> < 2 ^ 53 \<Longrightarrow> round_double m = m"
proof -
  assume a: "\<bar>m\<bar> < 2 ^ 53"
  then have "nat \<bar>m\<bar> < 2 ^ 53" by (simp add: nat_less_iff)
  then have "double_spacing (nat \<bar>m\<bar>) = 1" by (rule double_spacing_small)
  then have "round_double m = sgn m * \<bar>m\<bar>" by (simp add: round_double_def)
  then show ?thesis by (simp add: mult_sgn_abs)
qed

lemma round_double_53: "round_double (2 ^ 53) = 2 ^ 53"
proof -
  have n: "nat \<bar>2 ^ 53 :: int\<bar> = 2 ^ 53" by simp
  have s: "double_spacing (2 ^ 53) = 2" by (rule double_spacing_binade) simp_all
  show ?thesis unfolding round_double_def Let_def n s by simp
qed

lemma round_double_53_1: "round_double (2 ^ 53 + 1) = 2 ^ 53"
proof -
  have n: "nat \<bar>2 ^ 53 + 1 :: int\<bar> = 2 ^ 53 + 1" by simp
  have s: "double_spacing (2 ^ 53 + 1) = 2" by (rule double_spacing_binade) simp_all
  show ?thesis unfolding round_double_def Let_def n s by simp
qed

lemma js_add_exact: "- (2 ^ 53) \<le> a \<Longrightarrow> a < 2 ^ 53 \<Longrightarrow> js_add a 1 = a + 1"
proof -
  assume l: "- (2 ^ 53) \<le> a" and u: "a < 2 ^ 53"
  show ?thesis
  proof (cases "a + 1 = 2 ^ 53")
    case True
    then show ?thesis unfolding js_add_def by (simp only: round_double_53)
  next
    case False
    with l u have "\<bar>a + 1\<bar> < 2 ^ 53" by simp
    then show ?thesis unfolding js_add_def by (rule round_double_small)
  qed
qed

lemma js_add_safe: "safe_integer a \<Longrightarrow> js_add a 1 = a + 1"
  by (rule js_add_exact) (simp_all add: safe_integer_def)

lemma js_add_53: "js_add (2 ^ 53) 1 = 2 ^ 53"
  unfolding js_add_def by (rule round_double_53_1)

lemma getMaxId_fresh:
  "safe_integer (getMaxId attribute) \<Longrightarrow>
   js_add (getMaxId attribute) 1 \<notin> item_id ` set attribute"
proof -
  assume "safe_integer (getMaxId attribute)"
  then have "js_add (getMaxId attribute) 1 = getMaxId attribute + 1" by (rule js_add_safe)
  then show ?thesis using getMaxId_ge [of _ attribute] by fastforce
qed

section \<open>Adding an item\<close>




section \<open>Removing an item\<close>

lemma drop_nth_Cons_Suc: "drop_nth (x # xs) (Suc k) = x # drop_nth xs k"
  by (simp add: drop_nth_def)

lemma filter_absent: "i \<notin> item_id ` set xs \<Longrightarrow> filter (\<lambda>item. item_id item \<noteq> i) xs = xs"
  by (induction xs) auto

lemma findIndex_Cons_skip:
  "\<not> P x \<Longrightarrow> \<exists>y \<in> set xs. P y \<Longrightarrow> nat (findIndex P (x # xs)) = Suc (nat (findIndex P xs))"
proof -
  assume a: "\<not> P x" and b: "\<exists>y \<in> set xs. P y"
  from b have "\<not> findIndex P xs < 0" unfolding findIndex_neg by simp
  with a show ?thesis by (simp add: Let_def)
qed

lemma filter_once_drop_nth:
  "length (filter (\<lambda>item. item_id item = i) xs) = 1 \<Longrightarrow>
   filter (\<lambda>item. item_id item \<noteq> i) xs
     = drop_nth xs (nat (findIndex (\<lambda>item. item_id item = i) xs))"
proof (induction xs)
  case Nil
  then show ?case by simp
next
  case (Cons x xs)
  show ?case
  proof (cases "item_id x = i")
    case True
    with Cons.prems have "filter (\<lambda>item. item_id item = i) xs = []" by simp
    then have "i \<notin> item_id ` set xs" by (auto simp: filter_empty_conv)
    then have "filter (\<lambda>item. item_id item \<noteq> i) xs = xs" by (rule filter_absent)
    with True show ?thesis by (simp add: drop_nth_def)
  next
    case False
    with Cons.prems have o: "length (filter (\<lambda>item. item_id item = i) xs) = 1" by simp
    then have "filter (\<lambda>item. item_id item = i) xs \<noteq> []" by auto
    then have "\<exists>y \<in> set xs. item_id y = i" by (auto simp: filter_empty_conv)
    with False have "nat (findIndex (\<lambda>item. item_id item = i) (x # xs))
                      = Suc (nat (findIndex (\<lambda>item. item_id item = i) xs))"
      by (intro findIndex_Cons_skip) auto
    with False Cons.IH [OF o] show ?thesis by (simp add: drop_nth_Cons_Suc)
  qed
qed

lemma distinct_once:
  "distinct (map item_id xs) \<Longrightarrow> i \<in> item_id ` set xs \<Longrightarrow>
   length (filter (\<lambda>item. item_id item = i) xs) = 1"
proof (induction xs)
  case Nil
  then show ?case by simp
next
  case (Cons x xs)
  show ?case
  proof (cases "item_id x = i")
    case True
    with Cons.prems have "i \<notin> item_id ` set xs" by auto
    then have "filter (\<lambda>item. item_id item = i) xs = []" by (auto simp: filter_empty_conv)
    with True show ?thesis by simp
  next
    case False
    with Cons.prems Cons.IH show ?thesis by auto
  qed
qed

lemma once_present:
  "length (filter (\<lambda>item. item_id item = i) xs) = 1 \<Longrightarrow> i \<in> item_id ` set xs"
proof -
  assume "length (filter (\<lambda>item. item_id item = i) xs) = 1"
  then have "filter (\<lambda>item. item_id item = i) xs \<noteq> []" by auto
  then show ?thesis by (auto simp: filter_empty_conv)
qed

text \<open>
  C4. The prevent-empty policy is on unless the control sets \<^verbatim>\<open>preventEmpty\<close> to false
  (an absent control or an absent field leaves it on). With the policy on and exactly
  one item in the list, \<^verbatim>\<open>removeItem\<close> returns without handing a list over, whatever
  the id. Otherwise it hands over the list filtered of the items with the given id, in
  their original order: the list itself when no item has the id, and, when exactly one
  item has it, the list without the position \<open>k\<close> of that item, of length \<open>n - 1\<close>.
  Exactly one item has the id whenever the id occurs in a list with pairwise distinct
  ids, the invariant of the data model.
\<close>

theorem removeItem_guard:
  "((case control of None \<Rightarrow> True | Some c \<Rightarrow> preventEmpty c \<noteq> Some False)
      \<and> length attribute = 1
    \<longrightarrow> removeItem control attribute i = None)
   \<and> (\<not> ((case control of None \<Rightarrow> True | Some c \<Rightarrow> preventEmpty c \<noteq> Some False)
          \<and> length attribute = 1)
    \<longrightarrow> removeItem control attribute i = Some (filter (\<lambda>item. item_id item \<noteq> i) attribute)
        \<and> (i \<notin> item_id ` set attribute \<longrightarrow> removeItem control attribute i = Some attribute)
        \<and> (length (filter (\<lambda>item. item_id item = i) attribute) = 1 \<longrightarrow>
             (let k = nat (findIndex (\<lambda>item. item_id item = i) attribute)
              in k < length attribute \<and> item_id (attribute ! k) = i
                 \<and> removeItem control attribute i = Some (drop_nth attribute k)
                 \<and> length (drop_nth attribute k) = length attribute - 1)))
   \<and> (distinct (map item_id attribute) \<and> i \<in> item_id ` set attribute
        \<longrightarrow> length (filter (\<lambda>item. item_id item = i) attribute) = 1)"
proof -
  let ?k = "nat (findIndex (\<lambda>item. item_id item = i) attribute)"
  have g: "isDisabledRemove control attribute =
      ((case control of None \<Rightarrow> True | Some c \<Rightarrow> preventEmpty c \<noteq> Some False)
        \<and> length attribute = 1)"
    by (auto simp: isDisabledRemove_def split: option.splits)
  have a: "i \<notin> item_id ` set attribute \<Longrightarrow> filter (\<lambda>item. item_id item \<noteq> i) attribute = attribute"
    by (rule filter_absent)
  have b: "filter (\<lambda>item. item_id item \<noteq> i) attribute = drop_nth attribute ?k
        \<and> ?k < length attribute \<and> item_id (attribute ! ?k) = i
        \<and> length (drop_nth attribute ?k) = length attribute - 1"
    if o: "length (filter (\<lambda>item. item_id item = i) attribute) = 1"
  proof -
    from o have p: "i \<in> item_id ` set attribute" by (rule once_present)
    note k = findIndex_id_present [OF p]
    from filter_once_drop_nth [OF o] k(2,3) length_drop_nth [OF k(2)] show ?thesis by simp
  qed
  have c: "distinct (map item_id attribute) \<and> i \<in> item_id ` set attribute
        \<longrightarrow> length (filter (\<lambda>item. item_id item = i) attribute) = 1"
    using distinct_once [of attribute i] by simp
  have d: "\<not> isDisabledRemove control attribute
        \<longrightarrow> removeItem control attribute i = Some (filter (\<lambda>item. item_id item \<noteq> i) attribute)
        \<and> (i \<notin> item_id ` set attribute \<longrightarrow> removeItem control attribute i = Some attribute)
        \<and> (length (filter (\<lambda>item. item_id item = i) attribute) = 1 \<longrightarrow>
               ?k < length attribute \<and> item_id (attribute ! ?k) = i
                 \<and> removeItem control attribute i = Some (drop_nth attribute ?k)
                 \<and> length (drop_nth attribute ?k) = length attribute - 1)"
    using a b by (simp add: removeItem_def)
  have e: "isDisabledRemove control attribute \<longrightarrow> removeItem control attribute i = None"
    by (simp add: removeItem_def)
  from c d e show ?thesis unfolding g Let_def by (intro conjI)
qed

theorem removeItem_guard_witness:
  "removeItem None [sample 1 True] 1 = None
   \<and> removeItem (Some \<lparr>preventEmpty = None\<rparr>) [sample 1 True] 1 = None
   \<and> removeItem (Some \<lparr>preventEmpty = Some True\<rparr>) [sample 1 True] 7 = None
   \<and> removeItem (Some \<lparr>preventEmpty = Some False\<rparr>) [sample 1 True] 1 = Some []
   \<and> removeItem None [sample 1 True, sample 2 False, sample 3 True] 2
       = Some [sample 1 True, sample 3 True]
   \<and> removeItem None [sample 1 True, sample 2 False, sample 3 True] 7
       = Some [sample 1 True, sample 2 False, sample 3 True]
   \<and> distinct (map item_id [sample 1 True, sample 2 False, sample 3 True])
   \<and> length (filter (\<lambda>item. item_id item = 2) [sample 1 True, sample 2 False, sample 3 True]) = 1"
proof -
  let ?L = "[sample 1 True, sample 2 False, sample 3 True]"
  have 1: "removeItem None [sample 1 True] 1 = None"
    using removeItem_guard [of None "[sample 1 True]" 1] by simp
  have 2: "removeItem (Some \<lparr>preventEmpty = None\<rparr>) [sample 1 True] 1 = None"
    using removeItem_guard [of "Some \<lparr>preventEmpty = None\<rparr>" "[sample 1 True]" 1] by simp
  have 7: "removeItem (Some \<lparr>preventEmpty = Some True\<rparr>) [sample 1 True] 7 = None"
    using removeItem_guard [of "Some \<lparr>preventEmpty = Some True\<rparr>" "[sample 1 True]" 7] by simp
  have 3: "removeItem (Some \<lparr>preventEmpty = Some False\<rparr>) [sample 1 True] 1 = Some []"
    using removeItem_guard [of "Some \<lparr>preventEmpty = Some False\<rparr>" "[sample 1 True]" 1] by simp
  have k: "nat (findIndex (\<lambda>item. item_id item = 2) ?L) = 1" by simp
  have p: "distinct (map item_id ?L) \<and> 2 \<in> item_id ` set ?L" by simp
  have n: "\<not> ((case None :: Control option of None \<Rightarrow> True | Some c \<Rightarrow> preventEmpty c \<noteq> Some False)
          \<and> length ?L = 1)" by simp
  from removeItem_guard [of None ?L 2] p
  have o: "length (filter (\<lambda>item. item_id item = 2) ?L) = 1" by blast
  from removeItem_guard [of None ?L 2] n o
  have "removeItem None ?L 2 = Some (drop_nth ?L (nat (findIndex (\<lambda>item. item_id item = 2) ?L)))"
    unfolding Let_def by blast
  then have 4: "removeItem None ?L 2 = Some [sample 1 True, sample 3 True]"
    unfolding k by (simp add: drop_nth_def)
  have q: "7 \<notin> item_id ` set ?L" by simp
  from removeItem_guard [of None ?L 7] n q
  have 5: "removeItem None ?L 7 = Some ?L" by blast
  from p have 6: "distinct (map item_id ?L)" by (rule conjunct1)
  from 1 2 7 3 4 5 6 o show ?thesis by (intro conjI)
qed

text \<open>
  With an id that several items share, every one of them goes, and the list handed over
  is shorter than \<open>n - 1\<close>.
\<close>

theorem removeItem_guard_counterexample:
  "1 \<in> item_id ` set [sample 1 True, sample 1 False, sample 2 True]
   \<and> removeItem None [sample 1 True, sample 1 False, sample 2 True] 1 = Some [sample 2 True]
   \<and> length [sample 2 True] \<noteq> length [sample 1 True, sample 1 False, sample 2 True] - 1"
  by (simp add: removeItem_def isDisabledRemove_def)

text \<open>
  C9. Whatever the list, also one in which several items share an id, a removal that
  the prevent-empty guard does not disable hands a list over, and that list is the
  original one with every item of the given id left out, not only the first: no item
  with that id remains, and every item with another id remains, in its place and as
  often as before.
\<close>

theorem removeItem_removes_all:
  assumes "\<not> isDisabledRemove control attribute"
  shows "\<exists>newAttributes.
           removeItem control attribute i = Some newAttributes
           \<and> newAttributes = filter (\<lambda>item. item_id item \<noteq> i) attribute
           \<and> i \<notin> item_id ` set newAttributes
           \<and> set newAttributes = {item. item \<in> set attribute \<and> item_id item \<noteq> i}
           \<and> mset newAttributes = filter_mset (\<lambda>item. item_id item \<noteq> i) (mset attribute)"
proof -
  from assms have "removeItem control attribute i
      = Some (filter (\<lambda>item. item_id item \<noteq> i) attribute)"
    by (simp add: removeItem_def)
  moreover have "i \<notin> item_id ` set (filter (\<lambda>item. item_id item \<noteq> i) attribute)"
    by auto
  moreover have "set (filter (\<lambda>item. item_id item \<noteq> i) attribute)
      = {item. item \<in> set attribute \<and> item_id item \<noteq> i}"
    by auto
  moreover have "mset (filter (\<lambda>item. item_id item \<noteq> i) attribute)
      = filter_mset (\<lambda>item. item_id item \<noteq> i) (mset attribute)"
    by simp
  ultimately show ?thesis by blast
qed

theorem removeItem_removes_all_witness:
  "\<not> isDisabledRemove None [sample 1 True, sample 1 False, sample 2 True]
   \<and> removeItem None [sample 1 True, sample 1 False, sample 2 True] 1 = Some [sample 2 True]
   \<and> 1 \<notin> item_id ` set [sample 2 True]"
proof -
  let ?L = "[sample 1 True, sample 1 False, sample 2 True]"
  have g: "\<not> isDisabledRemove None ?L" by (simp add: isDisabledRemove_def)
  from removeItem_removes_all [OF g, of 1]
  obtain newAttributes where r: "removeItem None ?L 1 = Some newAttributes"
    and f: "newAttributes = filter (\<lambda>item. item_id item \<noteq> 1) ?L"
    and n: "1 \<notin> item_id ` set newAttributes"
    by (elim exE conjE)
  from f have e: "newAttributes = [sample 2 True]" by simp
  from g r n show ?thesis unfolding e by (intro conjI)
qed

section \<open>Duplicating an item\<close>






section \<open>Collapsing an item\<close>

lemma toggle_absent:
  "i \<notin> item_id ` set xs \<Longrightarrow> toggleCollapse xs i = xs"
  unfolding toggleCollapse_def by (induction xs) auto

lemma toggle_update:
  "distinct (map item_id xs) \<Longrightarrow> i \<in> item_id ` set xs \<Longrightarrow>
   toggleCollapse xs i
     = xs[nat (findIndex (\<lambda>item. item_id item = i) xs)
          := (xs ! nat (findIndex (\<lambda>item. item_id item = i) xs))
               \<lparr>collapsed := \<not> collapsed (xs ! nat (findIndex (\<lambda>item. item_id item = i) xs))\<rparr>]"
proof (induction xs)
  case Nil
  then show ?case by simp
next
  case (Cons x xs)
  show ?case
  proof (cases "item_id x = i")
    case True
    with Cons.prems have "i \<notin> item_id ` set xs" by auto
    then have "toggleCollapse xs i = xs" by (rule toggle_absent)
    then have "map (\<lambda>item. if item_id item = i then item\<lparr>collapsed := \<not> collapsed item\<rparr> else item) xs = xs"
      by (simp add: toggleCollapse_def)
    with True show ?thesis by (simp add: toggleCollapse_def)
  next
    case False
    with Cons.prems have p: "i \<in> item_id ` set xs" and d: "distinct (map item_id xs)" by auto
    from p have "\<exists>y \<in> set xs. item_id y = i" by auto
    with False have s: "nat (findIndex (\<lambda>item. item_id item = i) (x # xs))
                      = Suc (nat (findIndex (\<lambda>item. item_id item = i) xs))"
      by (intro findIndex_Cons_skip) auto
    have c: "toggleCollapse (x # xs) i = x # toggleCollapse xs i"
      using False by (simp add: toggleCollapse_def)
    show ?thesis unfolding c s Cons.IH [OF d p] by simp
  qed
qed

lemma toggle_twice: "toggleCollapse (toggleCollapse xs i) i = xs"
  unfolding toggleCollapse_def by (induction xs) auto

text \<open>
  C6. In a list with pairwise distinct ids that holds the given id at position \<open>k\<close>,
  \<^verbatim>\<open>toggleCollapse\<close> hands over the list with the collapsed flag of the item at \<open>k\<close>
  negated and nothing else changed: same length, same order, every other item and every
  other field as before. Toggling the same id twice gives the original list back, and
  toggling an id that no item has hands over a list equal to the original.
\<close>

theorem toggleCollapse_flips_one:
  "(distinct (map item_id attribute) \<and> i \<in> item_id ` set attribute \<longrightarrow>
      (let k = nat (findIndex (\<lambda>item. item_id item = i) attribute)
       in k < length attribute \<and> item_id (attribute ! k) = i
          \<and> toggleCollapse attribute i
              = attribute[k := (attribute ! k)\<lparr>collapsed := \<not> collapsed (attribute ! k)\<rparr>]))
   \<and> toggleCollapse (toggleCollapse attribute i) i = attribute
   \<and> length (toggleCollapse attribute i) = length attribute
   \<and> (i \<notin> item_id ` set attribute \<longrightarrow> toggleCollapse attribute i = attribute)"
proof (intro conjI impI)
  assume a: "distinct (map item_id attribute) \<and> i \<in> item_id ` set attribute"
  then have d: "distinct (map item_id attribute)" and p: "i \<in> item_id ` set attribute"
    by simp_all
  show "let k = nat (findIndex (\<lambda>item. item_id item = i) attribute)
       in k < length attribute \<and> item_id (attribute ! k) = i
          \<and> toggleCollapse attribute i
              = attribute[k := (attribute ! k)\<lparr>collapsed := \<not> collapsed (attribute ! k)\<rparr>]"
    unfolding Let_def
    using findIndex_id_present(2,3) [OF p] toggle_update [OF d p] by simp
next
  show "toggleCollapse (toggleCollapse attribute i) i = attribute" by (rule toggle_twice)
  show "length (toggleCollapse attribute i) = length attribute"
    by (simp add: toggleCollapse_def)
next
  assume "i \<notin> item_id ` set attribute"
  then show "toggleCollapse attribute i = attribute" by (rule toggle_absent)
qed

theorem toggleCollapse_flips_one_witness:
  "distinct (map item_id [sample 1 True, sample 2 False, sample 3 True])
   \<and> 2 \<in> item_id ` set [sample 1 True, sample 2 False, sample 3 True]
   \<and> toggleCollapse [sample 1 True, sample 2 False, sample 3 True] 2
       = [sample 1 True, sample 2 True, sample 3 True]
   \<and> 7 \<notin> item_id ` set [sample 1 True, sample 2 False, sample 3 True]
   \<and> toggleCollapse [sample 1 True, sample 2 False, sample 3 True] 7
       = [sample 1 True, sample 2 False, sample 3 True]"
proof -
  let ?L = "[sample 1 True, sample 2 False, sample 3 True]"
  have p: "distinct (map item_id ?L) \<and> 2 \<in> item_id ` set ?L" by simp
  have k: "nat (findIndex (\<lambda>item. item_id item = 2) ?L) = 1" by simp
  from toggleCollapse_flips_one [of ?L 2] p
  have "toggleCollapse ?L 2 = ?L[nat (findIndex (\<lambda>item. item_id item = 2) ?L)
          := (?L ! nat (findIndex (\<lambda>item. item_id item = 2) ?L))
             \<lparr>collapsed := \<not> collapsed (?L ! nat (findIndex (\<lambda>item. item_id item = 2) ?L))\<rparr>]"
    unfolding Let_def by blast
  then have 1: "toggleCollapse ?L 2 = [sample 1 True, sample 2 True, sample 3 True]"
    unfolding k by simp
  have q: "7 \<notin> item_id ` set ?L" by simp
  with toggleCollapse_flips_one [of ?L 7] have 2: "toggleCollapse ?L 7 = ?L" by blast
  from p 1 q 2 show ?thesis by blast
qed

section \<open>The distinct-ids invariant\<close>

lemma splice_delete1_items:
  assumes "xs \<noteq> []" and "- 1 \<le> f" and "f < int (length xs)"
  shows "\<exists>k < length xs. splice_delete1 (map Some xs) f = (Some (xs ! k), map Some (drop_nth xs k))"
proof -
  let ?k = "splice_start (length xs) f"
  from assms(1) have pos: "0 < length xs" by simp
  have lt: "?k < length xs"
  proof (cases "f < 0")
    case True
    with assms(2) have "f = - 1" by simp
    moreover from pos have "nat (int (length xs) - 1) < length xs" by arith
    ultimately show ?thesis using pos by (simp add: splice_start_def)
  next
    case False
    with assms(3) show ?thesis by (simp add: splice_start_def)
  qed
  have "splice_delete1 (map Some xs) f = (Some (xs ! ?k), map Some (drop_nth xs ?k))"
    using lt by (simp add: splice_delete1_def Let_def drop_nth_def take_map drop_map)
  with lt show ?thesis by blast
qed

lemma splice_insert_items:
  "splice_insert (map Some r) t (Some x)
     = map Some (take (splice_start (length r) t) r @ [x] @ drop (splice_start (length r) t) r)"
  by (simp add: splice_insert_def Let_def take_map drop_map)

lemma arrayMove_perm:
  assumes "xs \<noteq> []" and "- 1 \<le> f" and "f < int (length xs)"
  shows "\<exists>ys. arrayMove (map Some xs) f t = map Some ys \<and> mset ys = mset xs"
proof -
  from splice_delete1_items [OF assms] obtain k where k: "k < length xs"
    and d: "splice_delete1 (map Some xs) f = (Some (xs ! k), map Some (drop_nth xs k))"
    by blast
  let ?r = "drop_nth xs k"
  let ?t = "if t < 0 then int (length (map Some xs)) + t else t"
  let ?ys = "take (splice_start (length ?r) ?t) ?r @ [xs ! k] @ drop (splice_start (length ?r) ?t) ?r"
  have a: "arrayMove (map Some xs) f t = map Some ?ys"
    unfolding arrayMove_def Let_def d prod.case
    using splice_insert_items [of ?r ?t "xs ! k"] by simp
  have "mset (take (splice_start (length ?r) ?t) ?r) + mset (drop (splice_start (length ?r) ?t) ?r)
          = mset ?r"
    by (simp only: mset_append [symmetric] append_take_drop_id)
  then have "mset ?ys = mset ?r + {#xs ! k#}" by simp
  with mset_drop_nth [OF k] have "mset ?ys = mset xs" by simp
  with a show ?thesis by blast
qed

lemma arrayMove_empty: "arrayMove [] (- 1) (- 1) = [None]"
  by (simp add: arrayMove_def splice_delete1_def splice_insert_def splice_start_def)

lemma distinct_ids_mset:
  "mset ys = mset xs \<Longrightarrow> distinct (map item_id xs) \<Longrightarrow> distinct (map item_id ys)"
proof -
  assume m: "mset ys = mset xs" and d: "distinct (map item_id xs)"
  from m have "mset (map item_id ys) = mset (map item_id xs)" by simp
  then show ?thesis using d mset_eq_imp_distinct_iff by blast
qed

lemma handleDragEnd_distinct:
  assumes "distinct (map item_id attribute)"
    and "handleDragEnd attribute event = Some newAttributes"
  shows "distinct (map (map_option item_id) newAttributes)"
proof -
  from assms(2) obtain y where o: "over event = Some y" and ne: "active event \<noteq> y"
    and n: "newAttributes = arrayMove (map Some attribute)
              (findIndex (\<lambda>item. item_id item = active event) attribute)
              (findIndex (\<lambda>item. item_id item = y) attribute)"
    by (auto simp: handleDragEnd_def Let_def split: option.splits if_splits)
  show ?thesis
  proof (cases "attribute = []")
    case True
    with n show ?thesis by (simp add: arrayMove_empty)
  next
    case False
    from arrayMove_perm [OF False findIndex_ge findIndex_lt] n
    obtain ys where y: "newAttributes = map Some ys" and m: "mset ys = mset attribute"
      by blast
    from m assms(1) have "distinct (map item_id ys)" by (rule distinct_ids_mset)
    then have "distinct (map (\<lambda>x. Some (item_id x)) ys)"
      by (simp add: distinct_map inj_on_def)
    with y show ?thesis by (simp add: comp_def)
  qed
qed

text \<open>
  C7. When the ids of the list are pairwise distinct, so are the ids of the list that
  each operation hands over: \<^verbatim>\<open>removeItem\<close>, \<^verbatim>\<open>toggleCollapse\<close> and
  \<^verbatim>\<open>handleDragEnd\<close> on every such list, \<^verbatim>\<open>addItem\<close> and \<^verbatim>\<open>duplicateItem\<close> on
  every such list whose largest id is a safe integer (of absolute value below
  \<open>2 ^ 53\<close>). For the drag handler the ids are read cell by cell: from a list that is
  not empty it hands over a permutation of the items, whatever the two ids of the event
  are.
\<close>

theorem distinct_ids_preserved:
  assumes "distinct (map item_id attribute)"
  shows "(safe_integer (getMaxId attribute)
          \<longrightarrow> distinct (map item_id (fst (addItem attribute now))))
    \<and> (\<forall>newAttributes. removeItem control attribute i = Some newAttributes
          \<longrightarrow> distinct (map item_id newAttributes))
    \<and> (\<forall>newAttributes. safe_integer (getMaxId attribute)
            \<and> duplicateItem attribute i = Some newAttributes
          \<longrightarrow> distinct (map item_id newAttributes))
    \<and> distinct (map item_id (toggleCollapse attribute i))
    \<and> (\<forall>newAttributes. handleDragEnd attribute event = Some newAttributes
          \<longrightarrow> distinct (map (map_option item_id) newAttributes))"
proof (intro conjI allI impI)
  assume "safe_integer (getMaxId attribute)"
  then have "js_add (getMaxId attribute) 1 \<notin> item_id ` set attribute"
    by (rule getMaxId_fresh)
  with assms show "distinct (map item_id (fst (addItem attribute now)))"
    by (simp add: addItem_def)
next
  fix newAttributes
  assume "removeItem control attribute i = Some newAttributes"
  then have "newAttributes = filter (\<lambda>item. item_id item \<noteq> i) attribute"
    by (auto simp: removeItem_def split: if_splits)
  with assms show "distinct (map item_id newAttributes)" by (simp add: distinct_map_filter)
next
  fix newAttributes
  assume a: "safe_integer (getMaxId attribute)
    \<and> duplicateItem attribute i = Some newAttributes"
  then have "js_add (getMaxId attribute) 1 \<notin> item_id ` set attribute"
    by (intro getMaxId_fresh) simp
  moreover from a obtain source where
    "newAttributes = attribute @ [source\<lparr>item_id := js_add (getMaxId attribute) 1\<rparr>]"
    by (auto simp: duplicateItem_def Let_def split: option.splits)
  ultimately show "distinct (map item_id newAttributes)" using assms by simp
next
  have "map item_id (toggleCollapse attribute i) = map item_id attribute"
    by (simp add: toggleCollapse_def)
  with assms show "distinct (map item_id (toggleCollapse attribute i))" by simp
next
  fix newAttributes
  assume "handleDragEnd attribute event = Some newAttributes"
  with assms show "distinct (map (map_option item_id) newAttributes)"
    by (rule handleDragEnd_distinct)
qed

theorem distinct_ids_preserved_witness:
  "distinct (map item_id [sample 1 True, sample 2 False, sample 3 True])
   \<and> safe_integer (getMaxId [sample 1 True, sample 2 False, sample 3 True])
   \<and> distinct (map item_id (fst (addItem [sample 1 True, sample 2 False, sample 3 True] 42)))
   \<and> removeItem None [sample 1 True, sample 2 False, sample 3 True] 2
        = Some [sample 1 True, sample 3 True]
   \<and> distinct (map item_id [sample 1 True, sample 3 True])
   \<and> duplicateItem [sample 1 True, sample 2 False, sample 3 True] 2
        = Some [sample 1 True, sample 2 False, sample 3 True, sample 4 False]
   \<and> distinct (map item_id [sample 1 True, sample 2 False, sample 3 True, sample 4 False])
   \<and> distinct (map item_id (toggleCollapse [sample 1 True, sample 2 False, sample 3 True] 2))
   \<and> handleDragEnd [sample 1 True, sample 2 False, sample 3 True] \<lparr>active = 3, over = Some 1\<rparr>
        = Some [Some (sample 3 True), Some (sample 1 True), Some (sample 2 False)]
   \<and> distinct (map (map_option item_id)
        [Some (sample 3 True), Some (sample 1 True), Some (sample 2 False)])"
proof -
  let ?L = "[sample 1 True, sample 2 False, sample 3 True]"
  have d: "distinct (map item_id ?L)" by simp
  have g: "getMaxId ?L = 3" by (simp add: getMaxId_def)
  have sf: "safe_integer (getMaxId ?L)" unfolding g by (simp add: safe_integer_def)
  have "js_add 3 1 = 3 + 1" by (rule js_add_safe) (simp add: safe_integer_def)
  then have j: "js_add 3 1 = 4" by simp
  have r: "removeItem None ?L 2 = Some [sample 1 True, sample 3 True]"
    by (simp add: removeItem_def isDisabledRemove_def)
  have f: "find (\<lambda>item. item_id item = 2) ?L = Some (sample 2 False)" by simp
  have u: "duplicateItem ?L 2 = Some [sample 1 True, sample 2 False, sample 3 True, sample 4 False]"
    unfolding duplicateItem_def f g j by simp
  have "arrayMove (map Some ?L) (int 2) (int 0) = map Some (move_nth ?L 2 0)"
    by (rule arrayMove_in_range) simp_all
  then have "arrayMove (map Some ?L) 2 0 = [Some (sample 3 True), Some (sample 1 True), Some (sample 2 False)]"
    by (simp add: move_nth_def drop_nth_def)
  then have h: "handleDragEnd ?L \<lparr>active = 3, over = Some 1\<rparr>
        = Some [Some (sample 3 True), Some (sample 1 True), Some (sample 2 False)]"
    by (simp add: handleDragEnd_def)
  note t = distinct_ids_preserved [OF d, of 42 None 2 "\<lparr>active = 3, over = Some 1\<rparr>"]
  from t sf have 1: "distinct (map item_id (fst (addItem ?L 42)))" by blast
  from t r have 2: "distinct (map item_id [sample 1 True, sample 3 True])" by blast
  from t sf u have 3: "distinct (map item_id [sample 1 True, sample 2 False, sample 3 True, sample 4 False])"
    by blast
  from t have 4: "distinct (map item_id (toggleCollapse ?L 2))" by blast
  from t h have 5: "distinct (map (map_option item_id)
        [Some (sample 3 True), Some (sample 1 True), Some (sample 2 False)])" by blast
  from d sf 1 r 2 u 3 4 h 5 show ?thesis by (intro conjI)
qed

text \<open>
  Without the bound \<^verbatim>\<open>addItem\<close> can repeat an id: on the list of one item with the id
  \<open>2 ^ 53\<close>, where \<^verbatim>\<open>2 ** 53 + 1\<close> is \<open>2 ^ 53\<close>, it hands over two items with that id.
\<close>

theorem distinct_ids_preserved_counterexample:
  "distinct (map item_id [sample (2 ^ 53) True])
   \<and> map item_id (fst (addItem [sample (2 ^ 53) True] 42)) = [2 ^ 53, 2 ^ 53]
   \<and> \<not> distinct (map item_id (fst (addItem [sample (2 ^ 53) True] 42)))"
proof -
  have g: "getMaxId [sample (2 ^ 53) True] = 2 ^ 53" by (simp add: getMaxId_def)
  have "map item_id (fst (addItem [sample (2 ^ 53) True] 42)) = [2 ^ 53, js_add (2 ^ 53) 1]"
    unfolding addItem_def Let_def g by simp
  then have m: "map item_id (fst (addItem [sample (2 ^ 53) True] 42)) = [2 ^ 53, 2 ^ 53]"
    by (simp only: js_add_53)
  have "distinct (map item_id [sample (2 ^ 53) True])" by simp
  moreover have "\<not> distinct (map item_id (fst (addItem [sample (2 ^ 53) True] 42)))"
    unfolding m by simp
  ultimately show ?thesis using m by (intro conjI)
qed

section \<open>Changing a colour\<close>

text \<open>
  C10. For a colour key and a value, \<^verbatim>\<open>onChange\<close> hands to \<^verbatim>\<open>setAttributes\<close> an
  object with the one key \<^verbatim>\<open>attrKey\<close>. Under it, the entry of the element holds the
  value at the colour key, or the empty string when the value is \<^verbatim>\<open>null\<close> or
  \<^verbatim>\<open>undefined\<close>; every other colour key of that entry is as in \<^verbatim>\<open>elementColors\<close>,
  the colours that the popover receives for the element, hence as stored whenever
  \<^verbatim>\<open>elementColors\<close> is the stored entry of the element; and every other element under
  \<^verbatim>\<open>attrKey\<close> is as stored.
\<close>

theorem onChange_frame:
  "\<exists>group entry.
     onChange attrKey element_name attributes elementColors colorKey value attrKey = Some group
     \<and> dom (onChange attrKey element_name attributes elementColors colorKey value) = {attrKey}
     \<and> group element_name = Some entry
     \<and> entry colorKey = Some (if value = Null \<or> value = Undefined then Str '''' else value)
     \<and> (\<forall>k. k \<noteq> colorKey \<longrightarrow> entry k = spread elementColors k)
     \<and> (\<forall>n. n \<noteq> element_name \<longrightarrow> group n = spread (attributes attrKey) n)
     \<and> (elementColors = spread (attributes attrKey) element_name \<longrightarrow>
          (\<forall>k. k \<noteq> colorKey \<longrightarrow>
             entry k = spread (spread (attributes attrKey) element_name) k))"
  by (simp add: onChange_def nullish_def)

theorem onChange_frame_witness:
  "(\<exists>group entry.
      onChange ''colors'' ''heading''
        [''colors'' \<mapsto> [''heading'' \<mapsto> [''text'' \<mapsto> Str ''red'', ''bg'' \<mapsto> Str ''blue''],
                        ''body'' \<mapsto> [''text'' \<mapsto> Str ''black'']]]
        (Some [''text'' \<mapsto> Str ''red'', ''bg'' \<mapsto> Str ''blue''])
        ''text'' Null ''colors'' = Some group
      \<and> group ''heading'' = Some entry
      \<and> entry ''text'' = Some (Str '''')
      \<and> entry ''bg'' = Some (Str ''blue'')
      \<and> group ''body'' = Some [''text'' \<mapsto> Str ''black''])
   \<and> ''bg'' \<noteq> ''text'' \<and> ''body'' \<noteq> ''heading''"
proof -
  define A :: "string \<rightharpoonup> elements" where
    "A = [''colors'' \<mapsto> [''heading'' \<mapsto> [''text'' \<mapsto> Str ''red'', ''bg'' \<mapsto> Str ''blue''],
                        ''body'' \<mapsto> [''text'' \<mapsto> Str ''black'']]]"
  define E :: "colors option" where
    "E = Some [''text'' \<mapsto> Str ''red'', ''bg'' \<mapsto> Str ''blue'']"
  define ck where "ck = ''colors''"
  define hd_name where "hd_name = ''heading''"
  define bd where "bd = ''body''"
  define tx where "tx = ''text''"
  define bg where "bg = ''bg''"
  have kn: "bg \<noteq> tx" by (simp add: bg_def tx_def)
  have nn: "bd \<noteq> hd_name" by (simp add: bd_def hd_name_def)
  from onChange_frame [of ck hd_name A E tx Null]
  obtain group entry where g: "onChange ck hd_name A E tx Null ck = Some group"
    and e: "group hd_name = Some entry"
    and w: "entry tx = Some (if Null = Null \<or> Null = Undefined then Str '''' else Null)"
    and k: "\<forall>k. k \<noteq> tx \<longrightarrow> entry k = spread E k"
    and n: "\<forall>n. n \<noteq> hd_name \<longrightarrow> group n = spread (A ck) n"
    by (elim exE conjE)
  from w have 1: "entry tx = Some (Str '''')" by simp
  from k kn have "entry bg = spread E bg" by simp
  then have 2: "entry bg = Some (Str ''blue'')"
    by (simp add: spread_def E_def bg_def)
  from n nn have "group bd = spread (A ck) bd" by simp
  then have 3: "group bd = Some [''text'' \<mapsto> Str ''black'']"
    by (simp add: spread_def A_def ck_def bd_def)
  from g e 1 2 3 have "\<exists>group entry. onChange ck hd_name A E tx Null ck = Some group
      \<and> group hd_name = Some entry \<and> entry tx = Some (Str '''')
      \<and> entry bg = Some (Str ''blue'') \<and> group bd = Some [''text'' \<mapsto> Str ''black'']"
    by (intro exI conjI)
  with kn nn show ?thesis
    unfolding A_def E_def ck_def hd_name_def bd_def tx_def bg_def by (intro conjI)
qed

text \<open>
  The other colour keys come from \<^verbatim>\<open>elementColors\<close>, not from the stored entry: when
  the popover receives colours that lack a key the stored entry has, the entry handed
  over lacks it too.
\<close>

theorem onChange_frame_counterexample:
  "the (the ([''colors'' \<mapsto> [''heading'' \<mapsto> [''text'' \<mapsto> Str ''red'', ''bg'' \<mapsto> Str ''blue'']]]
          ''colors'') ''heading'') ''bg'' = Some (Str ''blue'')
   \<and> the (the (onChange ''colors'' ''heading''
          [''colors'' \<mapsto> [''heading'' \<mapsto> [''text'' \<mapsto> Str ''red'', ''bg'' \<mapsto> Str ''blue'']]]
          (Some [''text'' \<mapsto> Str ''red''])
          ''text'' (Str ''green'') ''colors'') ''heading'') ''bg'' = None"
  by (simp add: onChange_def spread_def nullish_def)

end
